theory Spec2Isabelle
  imports Complex_Main "HOL-Library.Sublist"
begin

section \<open>Tensors\<close>

text \<open>
  The module works on float32 tensors. The embedding uses exact real arithmetic:
  a vector is a list of reals, a matrix is the list of its rows, and the queue (a tensor
  with three dimensions) is the list of its slots, each a matrix. Tensors are
  rectangular; a tensor without rows is the empty list and has width 0. Rounding,
  \<open>inf\<close> and \<open>nan\<close> are not represented, so every statement below is one of exact
  arithmetic, and it is only meaningful where no denominator is zero.
\<close>

type_synonym vec = "real list"
type_synonym matrix = "vec list"

datatype error = AttributeError | IndexError | AssertionError | RuntimeError
  | ZeroDivisionError | ValueError

definition ncols :: "matrix \<Rightarrow> nat" where
  "ncols Q = (case Q of [] \<Rightarrow> 0 | r # _ \<Rightarrow> length r)"

definition column :: "matrix \<Rightarrow> nat \<Rightarrow> vec" where
  "column Q j = map (\<lambda>r. r ! j) Q"

text \<open>\<^verbatim>\<open>Q.t()\<close>\<close>

definition mat_t :: "matrix \<Rightarrow> matrix" where
  "mat_t Q = map (column Q) [0..<ncols Q]"

text \<open>\<^verbatim>\<open>torch.sum(Q)\<close>, \<^verbatim>\<open>torch.sum(Q, dim=1)\<close> (one sum per row) and
  \<^verbatim>\<open>torch.sum(Q, dim=0)\<close> (one sum per column).\<close>

definition torch_sum :: "matrix \<Rightarrow> real" where
  "torch_sum Q = sum_list (map sum_list Q)"

definition sum_dim1 :: "matrix \<Rightarrow> vec" where
  "sum_dim1 Q = map sum_list Q"

definition sum_dim0 :: "matrix \<Rightarrow> vec" where
  "sum_dim0 Q = map (\<lambda>j. sum_list (column Q j)) [0..<ncols Q]"

text \<open>\<^verbatim>\<open>Q /= s\<close> for a scalar \<open>s\<close>; \<^verbatim>\<open>Q *= v.unsqueeze(1)\<close> (row \<open>i\<close> times \<open>v[i]\<close>);
  \<^verbatim>\<open>Q *= v.unsqueeze(0)\<close> (column \<open>j\<close> times \<open>v[j]\<close>); \<^verbatim>\<open>Q / v\<close> for a row vector
  \<open>v\<close> kept as a 1-row matrix (column \<open>j\<close> divided by \<open>v[j]\<close>).\<close>

definition div_scalar :: "matrix \<Rightarrow> real \<Rightarrow> matrix" where
  "div_scalar Q s = map (map (\<lambda>x. x / s)) Q"

definition mul_unsqueeze1 :: "matrix \<Rightarrow> vec \<Rightarrow> matrix" where
  "mul_unsqueeze1 Q v = map2 (\<lambda>row a. map (\<lambda>x. x * a) row) Q v"

definition mul_unsqueeze0 :: "matrix \<Rightarrow> vec \<Rightarrow> matrix" where
  "mul_unsqueeze0 Q v = map (\<lambda>row. map2 (*) row v) Q"

definition div_keepdim0 :: "matrix \<Rightarrow> vec \<Rightarrow> matrix" where
  "div_keepdim0 Q v = map (\<lambda>row. map2 (/) row v) Q"

text \<open>\<^verbatim>\<open>torch.ones(n) / d\<close>\<close>

definition ones_div :: "nat \<Rightarrow> real \<Rightarrow> vec" where
  "ones_div n d = replicate n (1 / d)"

section \<open>Sinkhorn-Knopp\<close>

subsection \<open>The non-distributed variant\<close>

text \<open>The variant \<^verbatim>\<open>sinkhorn\<close> that the source keeps as a comment: the body of its loop,
  the loop, and the function.\<close>

definition sinkhorn_body :: "vec \<Rightarrow> vec \<Rightarrow> matrix \<Rightarrow> matrix" where
  "sinkhorn_body r c Q =
     (let u = sum_dim1 Q;
          Q1 = mul_unsqueeze1 Q (map2 (/) r u)
      in mul_unsqueeze0 Q1 (map2 (/) c (sum_dim0 Q1)))"

fun sinkhorn_loop :: "vec \<Rightarrow> vec \<Rightarrow> nat \<Rightarrow> matrix \<Rightarrow> matrix" where
  "sinkhorn_loop r c 0 Q = Q"
| "sinkhorn_loop r c (Suc n) Q = sinkhorn_loop r c n (sinkhorn_body r c Q)"

definition sinkhorn :: "matrix \<Rightarrow> nat \<Rightarrow> matrix" where
  "sinkhorn Q nmb_iters =
     (let sum_Q = torch_sum Q;
          Q1 = div_scalar Q sum_Q;
          K = length Q1;
          B = ncols Q1;
          r = ones_div K (real K);
          c = ones_div B (real B);
          Q2 = sinkhorn_loop r c nmb_iters Q1
      in mat_t (div_keepdim0 Q2 (sum_dim0 Q2)))"

subsection \<open>The distributed variant\<close>

text \<open>
  \<^verbatim>\<open>distributed_sinkhorn\<close> is the code of one process. What it sees of the other processes
  is what the collective \<^verbatim>\<open>all_reduce\<close> adds to its own tensor, so each other process is
  given by what it contributes: its local \<^verbatim>\<open>sum_Q\<close> and, for each iteration \<open>it\<close>, its
  local row sums \<^verbatim>\<open>u\<close>. The distributed context is \<open>None\<close> when
  \<^verbatim>\<open>torch.distributed.is_initialized()\<close> is false, and otherwise the list of the other
  processes; the world size is one more than its length.
\<close>

type_synonym peer = "real \<times> (nat \<Rightarrow> vec)"
type_synonym dist = "peer list option"

definition get_world_size :: "peer list \<Rightarrow> nat" where
  "get_world_size ps = Suc (length ps)"

definition all_reduce :: "peer list \<Rightarrow> real \<Rightarrow> real" where
  "all_reduce ps x = foldl (+) x (map fst ps)"

definition all_reduce_vec :: "peer list \<Rightarrow> nat \<Rightarrow> vec \<Rightarrow> vec" where
  "all_reduce_vec ps it u = foldl (map2 (+)) u (map (\<lambda>p. snd p it) ps)"

definition distributed_sinkhorn_body :: "dist \<Rightarrow> vec \<Rightarrow> vec \<Rightarrow> nat \<Rightarrow> matrix \<Rightarrow> matrix" where
  "distributed_sinkhorn_body d r c it Q =
     (let u = sum_dim1 Q;
          u1 = (case d of None \<Rightarrow> u | Some ps \<Rightarrow> all_reduce_vec ps it u);
          Q1 = mul_unsqueeze1 Q (map2 (/) r u1)
      in mul_unsqueeze0 Q1 (map2 (/) c (sum_dim0 Q1)))"

text \<open>\<^verbatim>\<open>for it in range(nmb_iters)\<close>: \<open>it\<close> is the index of the next iteration and \<open>n\<close>
  the number of iterations left.\<close>

fun distributed_sinkhorn_loop :: "dist \<Rightarrow> vec \<Rightarrow> vec \<Rightarrow> nat \<Rightarrow> nat \<Rightarrow> matrix \<Rightarrow> matrix" where
  "distributed_sinkhorn_loop d r c it 0 Q = Q"
| "distributed_sinkhorn_loop d r c it (Suc n) Q =
     distributed_sinkhorn_loop d r c (Suc it) n (distributed_sinkhorn_body d r c it Q)"

definition distributed_sinkhorn :: "dist \<Rightarrow> matrix \<Rightarrow> nat \<Rightarrow> matrix" where
  "distributed_sinkhorn d Q nmb_iters =
     (let sum_Q = torch_sum Q;
          sum_Q1 = (case d of None \<Rightarrow> sum_Q | Some ps \<Rightarrow> all_reduce ps sum_Q);
          Q1 = div_scalar Q sum_Q1;
          K = length Q1;
          B = ncols Q1;
          num_procs = (case d of None \<Rightarrow> 1 | Some ps \<Rightarrow> get_world_size ps);
          r = ones_div K (real K);
          c = ones_div B (real (num_procs * B));
          Q2 = distributed_sinkhorn_loop d r c 0 nmb_iters Q1
      in mat_t (div_keepdim0 Q2 (sum_dim0 Q2)))"

text \<open>A \<open>K \<times> B\<close> matrix with strictly positive entries.\<close>

definition pos_matrix :: "nat \<Rightarrow> nat \<Rightarrow> matrix \<Rightarrow> bool" where
  "pos_matrix K B Q =
     (length Q = K \<and> list_all (\<lambda>row. length row = B \<and> list_all (\<lambda>x. 0 < x) row) Q)"


section \<open>The module\<close>

text \<open>
  The attributes of the \<^verbatim>\<open>SwAV\<close> module that the modelled methods read or write.
  \<^verbatim>\<open>get_assignments\<close> is the attribute that \<^verbatim>\<open>__init__\<close> binds to
  \<^verbatim>\<open>distributed_sinkhorn\<close>. \<^verbatim>\<open>use_the_queue\<close> and \<^verbatim>\<open>lr_schedule\<close> do not exist before
  \<^verbatim>\<open>on_train_epoch_start\<close> has run: \<open>None\<close> is the missing attribute, and reading it
  raises \<^verbatim>\<open>AttributeError\<close>. Sizes and crop ids are natural numbers, epochs and the
  number of batches are integers. The width of a row is fixed by the construction of the
  backbone (\<^verbatim>\<open>feat_dim\<close> for embeddings and queue rows, \<^verbatim>\<open>nmb_prototypes\<close> for logits) and
  is not checked again; the number of rows depends on the batch and is checked where
  torch checks it.
\<close>

record swav =
  feat_dim :: nat
  freeze_prototypes_epochs :: int
  sinkhorn_iterations :: nat
  queue_length :: nat
  epoch_queue_starts :: int
  crops_for_assign :: "nat list"
  nmb_crops :: "nat list"
  epsilon :: real
  temperature :: real
  start_lr :: real
  learning_rate :: real
  final_lr :: real
  warmup_epochs :: int
  max_epochs :: int
  num_nodes :: nat
  get_assignments :: "matrix \<Rightarrow> nat \<Rightarrow> matrix"
  prototypes_weight :: matrix
  queue :: "matrix list option"
  use_the_queue :: "bool option"
  lr_schedule :: "real list option"

text \<open>What the methods read of \<^verbatim>\<open>self.trainer\<close>; \<open>gpus\<close> is \<^verbatim>\<open>len(self.trainer.gpus)\<close>.\<close>

record trainer =
  num_training_batches :: int
  current_epoch :: int
  gpus :: nat
  global_step :: nat

definition bind :: "error + 'a \<Rightarrow> ('a \<Rightarrow> error + 'b) \<Rightarrow> error + 'b" where
  "bind m f = (case m of Inl e \<Rightarrow> Inl e | Inr x \<Rightarrow> f x)"

text \<open>The module as \<^verbatim>\<open>__init__\<close> leaves it when it is called with the default values of
  its arguments, in the distributed context \<open>d\<close>, for a network whose prototype
  weights are \<open>w\<close>.\<close>

definition init :: "dist \<Rightarrow> matrix \<Rightarrow> swav" where
  "init d w =
     \<lparr>feat_dim = 128, freeze_prototypes_epochs = 1, sinkhorn_iterations = 3,
      queue_length = 0, epoch_queue_starts = 15, crops_for_assign = [0, 1],
      nmb_crops = [2, 6], epsilon = 0.05, temperature = 0.1, start_lr = 0,
      learning_rate = 1 / 1000, final_lr = 0, warmup_epochs = 10, max_epochs = 100,
      num_nodes = 1, get_assignments = distributed_sinkhorn d, prototypes_weight = w,
      queue = None, use_the_queue = None, lr_schedule = None\<rparr>"

subsection \<open>Learning-rate schedule\<close>





subsection \<open>Epoch start\<close>



subsection \<open>Prototype gradients\<close>

text \<open>Python's \<^verbatim>\<open>sub in name\<close> on strings.\<close>

fun str_in :: "string \<Rightarrow> string \<Rightarrow> bool" where
  "str_in sub [] = (sub = [])"
| "str_in sub (c # cs) = (prefix sub (c # cs) \<or> str_in sub cs)"

text \<open>A parameter of the network with its gradient (\<open>None\<close> is Python's \<^verbatim>\<open>None\<close>);
  \<^verbatim>\<open>named_parameters()\<close> is a list of names with parameters.\<close>

record 'a parameter =
  data :: 'a
  grad :: "'a option"

definition on_after_backward ::
  "trainer \<Rightarrow> swav \<Rightarrow> (string \<times> 'a parameter) list \<Rightarrow> (string \<times> 'a parameter) list" where
  "on_after_backward tr s named_parameters =
     (if current_epoch tr < freeze_prototypes_epochs s then
        map (\<lambda>(name, p). if str_in ''prototypes'' name then (name, p\<lparr>grad := None\<rparr>)
                           else (name, p)) named_parameters
      else named_parameters)"

subsection \<open>The shared step\<close>

text \<open>Python slices of a list, for natural numbers \<open>a\<close>, \<open>b\<close> and \<open>n\<close>:
  \<^verbatim>\<open>xs[a:b]\<close>, \<^verbatim>\<open>xs[:-n]\<close> and \<^verbatim>\<open>xs[-n:]\<close> (\<^verbatim>\<open>-0\<close> is \<^verbatim>\<open>0\<close>, so \<^verbatim>\<open>xs[:-0]\<close> is empty and
  \<^verbatim>\<open>xs[-0:]\<close> is \<^verbatim>\<open>xs\<close>); \<^verbatim>\<open>xs[n:]\<close> is \<open>drop n xs\<close> and \<^verbatim>\<open>xs[:n]\<close> is \<open>take n xs\<close>.\<close>

definition py_slice :: "nat \<Rightarrow> nat \<Rightarrow> 'a list \<Rightarrow> 'a list" where
  "py_slice a b xs = take (b - a) (drop a xs)"

definition slice_to_neg :: "nat \<Rightarrow> 'a list \<Rightarrow> 'a list" where
  "slice_to_neg n xs = (if n = 0 then [] else take (length xs - n) xs)"

definition slice_from_neg :: "nat \<Rightarrow> 'a list \<Rightarrow> 'a list" where
  "slice_from_neg n xs = (if n = 0 then xs else drop (length xs - n) xs)"

text \<open>The rows that an assignment \<^verbatim>\<open>dest[...] = src\<close> writes into a destination of \<open>n\<close>
  rows: \<open>src\<close> itself when it has \<open>n\<close> rows, its one row repeated when it has one row
  (broadcasting), and \<^verbatim>\<open>RuntimeError\<close> otherwise.\<close>

definition setitem_rows :: "nat \<Rightarrow> matrix \<Rightarrow> error + matrix" where
  "setitem_rows n src =
     (if length src = n then Inr src
      else if length src = 1 then Inr (replicate n (hd src))
      else Inl RuntimeError)"

text \<open>\<^verbatim>\<open>nn.functional.normalize(w, dim=1, p=2)\<close>: each row divided by its Euclidean norm,
  the norm clamped below at \<^verbatim>\<open>eps = 1e-12\<close>.\<close>

definition normalize_dim1 :: "matrix \<Rightarrow> matrix" where
  "normalize_dim1 w =
     map (\<lambda>v. map (\<lambda>x. x / max (sqrt (sum_list (map (\<lambda>y. y ^ 2) v))) (1 / 10 ^ 12)) v) w"

text \<open>\<^verbatim>\<open>torch.mm(A, B)\<close>\<close>

definition mm :: "matrix \<Rightarrow> matrix \<Rightarrow> matrix" where
  "mm A B = map (\<lambda>a. map (\<lambda>j. sum_list (map2 (*) a (column B j))) [0..<ncols B]) A"

text \<open>\<^verbatim>\<open>nn.Softmax(dim=1)\<close>\<close>

definition softmax :: "matrix \<Rightarrow> matrix" where
  "softmax x = map (\<lambda>row. map (\<lambda>a. exp a / sum_list (map exp row)) row) x"

text \<open>\<^verbatim>\<open>torch.mean\<close> of a vector\<close>

definition mean :: "vec \<Rightarrow> real" where
  "mean xs = sum_list xs / real (length xs)"

text \<open>\<^verbatim>\<open>torch.mean(torch.sum(q * torch.log(p), dim=1))\<close>\<close>

definition mean_sum_q_log_p :: "matrix \<Rightarrow> matrix \<Rightarrow> real" where
  "mean_sum_q_log_p q p = mean (sum_dim1 (map2 (map2 (*)) q (map (map ln) p)))"

text \<open>One batch as the step sees it: \<open>forward\<close> is \<^verbatim>\<open>self.model(inputs)\<close> as a function of
  the prototype weights it runs with (the other weights of the network and the crops
  are fixed in it), returning the embedding and the logits of all crops, concatenated;
  \<open>batch_size\<close> is \<^verbatim>\<open>inputs[0].size(0)\<close>.\<close>

record batch =
  forward :: "matrix \<Rightarrow> matrix \<times> matrix"
  batch_size :: nat

text \<open>Lines 237 and 238, on the slot \<open>qi = self.queue[i]\<close>: the rows are moved back by
  \<open>bs\<close>, then the embeddings of the crop are written in front.\<close>

definition fill_queue :: "nat \<Rightarrow> matrix \<Rightarrow> nat \<Rightarrow> matrix \<Rightarrow> error + matrix" where
  "fill_queue bs embedding crop_id qi =
     bind (setitem_rows (length (drop bs qi)) (slice_to_neg bs qi)) (\<lambda>moved.
       let qi1 = take bs qi @ moved
       in bind (setitem_rows (length (take bs qi1))
                  (py_slice (crop_id * bs) ((crop_id + 1) * bs) embedding)) (\<lambda>front.
            Inr (front @ drop bs qi1)))"

text \<open>The rows of the crop \<open>crop_id\<close> in a tensor of concatenated crops,
  \<^verbatim>\<open>x[crop_id * bs:(crop_id + 1) * bs]\<close>, and the slot after the steps that insert the
  embeddings \<open>embedding # rest\<close>, one tensor for each step, in this order.\<close>

definition crop_rows :: "nat \<Rightarrow> nat \<Rightarrow> matrix \<Rightarrow> matrix" where
  "crop_rows bs crop_id x = py_slice (crop_id * bs) ((crop_id + 1) * bs) x"

fun fill_queue_steps :: "nat \<Rightarrow> nat \<Rightarrow> matrix list \<Rightarrow> matrix \<Rightarrow> error + matrix" where
  "fill_queue_steps bs crop_id [] qi = Inr qi"
| "fill_queue_steps bs crop_id (embedding # rest) qi =
     bind (fill_queue bs embedding crop_id qi) (fill_queue_steps bs crop_id rest)"

text \<open>The condition of line 233,
  \<^verbatim>\<open>self.use_the_queue or not torch.all(self.queue[i, -1, :] == 0)\<close>; \<^verbatim>\<open>or\<close> does not
  evaluate its second operand when the first is true.\<close>

definition queue_in_use :: "swav \<Rightarrow> matrix list \<Rightarrow> nat \<Rightarrow> error + bool" where
  "queue_in_use s qs i =
     (case use_the_queue s of
        None \<Rightarrow> Inl AttributeError
      | Some b \<Rightarrow>
          if b then Inr True
          else if i < length qs then
            (case qs ! i of
               [] \<Rightarrow> Inl IndexError
             | _ # _ \<Rightarrow> Inr (\<not> list_all (\<lambda>x. x = 0) (last (qs ! i))))
          else Inl IndexError)"

text \<open>Lines 231 to 238: the queue is consulted, then filled. The result is the module
  and the rows \<^verbatim>\<open>out\<close> that go on to the assignment.\<close>

definition queue_block ::
  "nat \<Rightarrow> matrix \<Rightarrow> swav \<Rightarrow> nat \<Rightarrow> nat \<Rightarrow> matrix \<Rightarrow> error + (swav \<times> matrix)" where
  "queue_block bs embedding s i crop_id out =
     (case queue s of
        None \<Rightarrow> Inr (s, out)
      | Some qs \<Rightarrow>
          bind (queue_in_use s qs i) (\<lambda>use.
          bind (if use then
                  (if i < length qs then
                     Inr (s\<lparr>use_the_queue := Some True\<rparr>,
                          mm (qs ! i) (mat_t (prototypes_weight s)) @ out)
                   else Inl IndexError)
                else Inr (s, out)) (\<lambda>(s1, out1).
          bind (if i < length qs then fill_queue bs embedding crop_id (qs ! i)
                else Inl IndexError) (\<lambda>qi.
          Inr (s1\<lparr>queue := Some (qs[i := qi])\<rparr>, out1)))))"

text \<open>Lines 227 to 242, the block without gradients: the module after it and the
  assignment \<open>q\<close>.\<close>

definition assign_block ::
  "nat \<Rightarrow> matrix \<Rightarrow> matrix \<Rightarrow> swav \<Rightarrow> nat \<Rightarrow> nat \<Rightarrow> error + (swav \<times> matrix)" where
  "assign_block bs embedding output s i crop_id =
     (let out = py_slice (bs * crop_id) (bs * (crop_id + 1)) output
      in bind (queue_block bs embedding s i crop_id out) (\<lambda>(s1, out1).
           let q = mat_t (map (map (\<lambda>x. exp (x / epsilon s1))) out1)
           in Inr (s1, slice_from_neg bs (get_assignments s1 q (sinkhorn_iterations s1)))))"

text \<open>\<^verbatim>\<open>np.delete(np.arange(n), crop_id)\<close>: an index out of range raises.\<close>

definition np_delete_arange :: "nat \<Rightarrow> nat \<Rightarrow> error + nat list" where
  "np_delete_arange n crop_id =
     (if crop_id < n then Inr ([0..<crop_id] @ [Suc crop_id..<n]) else Inl IndexError)"

text \<open>Lines 246 to 249, the loop over the other crops, with the accumulator
  \<^verbatim>\<open>subloss\<close>.\<close>

fun subloss_loop :: "swav \<Rightarrow> nat \<Rightarrow> matrix \<Rightarrow> matrix \<Rightarrow> nat list \<Rightarrow> real \<Rightarrow> error + real" where
  "subloss_loop s bs output q [] subloss = Inr subloss"
| "subloss_loop s bs output q (v # vs) subloss =
     (let p = softmax (div_scalar (py_slice (bs * v) (bs * (v + 1)) output) (temperature s))
      in if length q = length p
         then subloss_loop s bs output q vs (subloss - mean_sum_q_log_p q p)
         else Inl AssertionError)"

text \<open>Lines 226 to 250, the loop over \<^verbatim>\<open>enumerate(self.crops_for_assign)\<close>, with the
  accumulator \<^verbatim>\<open>loss\<close>.\<close>

fun crops_loop ::
  "nat \<Rightarrow> matrix \<Rightarrow> matrix \<Rightarrow> (nat \<times> nat) list \<Rightarrow> swav \<Rightarrow> real \<Rightarrow> error + (swav \<times> real)" where
  "crops_loop bs embedding output [] s loss = Inr (s, loss)"
| "crops_loop bs embedding output ((i, crop_id) # rest) s loss =
     bind (assign_block bs embedding output s i crop_id) (\<lambda>(s1, q).
     bind (np_delete_arange (sum_list (nmb_crops s1)) crop_id) (\<lambda>vs.
     bind (subloss_loop s1 bs output q vs 0) (\<lambda>subloss.
       crops_loop bs embedding output rest s1
         (loss + subloss / (real (sum_list (nmb_crops s1)) - 1)))))"

definition shared_step :: "batch \<Rightarrow> swav \<Rightarrow> error + (swav \<times> real)" where
  "shared_step b s =
     (let w = normalize_dim1 (prototypes_weight s);
          s1 = s\<lparr>prototypes_weight := w\<rparr>;
          (embedding, output) = forward b w;
          bs = batch_size b
      in bind (crops_loop bs embedding output (enumerate 0 (crops_for_assign s1)) s1 0)
           (\<lambda>(s2, loss).
              if length (crops_for_assign s2) = 0 then Inl ZeroDivisionError
              else Inr (s2, loss / real (length (crops_for_assign s2)))))"



definition validation_step :: "batch \<Rightarrow> swav \<Rightarrow> error + (swav \<times> real)" where
  "validation_step b s = shared_step b s"





subsection \<open>The loss as the specification words it\<close>




subsection \<open>A small instance\<close>


definition ex_batch :: batch where
  "ex_batch = \<lparr>forward = (\<lambda>w. ([[0, 0, 1], [0, 0, 1]], mm [[0, 0, 1], [0, 0, 1]] (mat_t w))),
     batch_size = 1\<rparr>"

definition ex_module :: swav where
  "ex_module = (init None [[0, 2, 0], [2, 0, 0]])\<lparr>feat_dim := 3, crops_for_assign := [0],
     nmb_crops := [1, 1], queue_length := 1, epoch_queue_starts := 0, warmup_epochs := 1,
     max_epochs := 2\<rparr>"

section \<open>Properties of Sinkhorn-Knopp\<close>

subsection \<open>One process\<close>

lemma all_reduce_Nil: "all_reduce [] x = x"
  by (simp add: all_reduce_def)

lemma all_reduce_vec_Nil: "all_reduce_vec [] it u = u"
  by (simp add: all_reduce_vec_def)

lemma body_single:
  "distributed_sinkhorn_body None r c it Q = sinkhorn_body r c Q"
  "distributed_sinkhorn_body (Some []) r c it Q = sinkhorn_body r c Q"
  by (simp_all add: distributed_sinkhorn_body_def sinkhorn_body_def all_reduce_vec_Nil)

lemma loop_single:
  "d = None \<or> d = Some [] \<Longrightarrow> distributed_sinkhorn_loop d r c it n Q = sinkhorn_loop r c n Q"
  by (induction n arbitrary: it Q) (auto simp: body_single)

lemma distributed_sinkhorn_single:
  "d = None \<or> d = Some [] \<Longrightarrow> distributed_sinkhorn d Q n = sinkhorn Q n"
  by (auto simp: distributed_sinkhorn_def sinkhorn_def loop_single all_reduce_Nil get_world_size_def)




text \<open>
  C3. Without a distributed context, and with a distributed context of world size 1,
  \<^verbatim>\<open>distributed_sinkhorn\<close> returns what the non-distributed \<^verbatim>\<open>sinkhorn\<close> returns, on
  every matrix and for every number of iterations.
\<close>

theorem distributed_sinkhorn_eq_sinkhorn:
  "distributed_sinkhorn None Q n = sinkhorn Q n \<and>
   (get_world_size ps = 1 \<longrightarrow> distributed_sinkhorn (Some ps) Q n = sinkhorn Q n)"
  using distributed_sinkhorn_single[of None Q n] distributed_sinkhorn_single[of "Some ps" Q n]
  by (simp add: get_world_size_def)

theorem distributed_sinkhorn_eq_sinkhorn_witness:
  "get_world_size [] = 1 \<and>
   distributed_sinkhorn (Some []) [[1, 3], [2, 2]] 2 = sinkhorn [[1, 3], [2, 2]] 2"
  using distributed_sinkhorn_eq_sinkhorn[of "[[1, 3], [2, 2]]" 2 "[]"]
  by (simp add: get_world_size_def)



subsection \<open>Positive matrices stay positive\<close>

lemma pos_matrix_nth:
  "pos_matrix K B Q \<longleftrightarrow>
     length Q = K \<and> (\<forall>i<K. length (Q ! i) = B \<and> (\<forall>j<B. 0 < Q ! i ! j))"
  by (auto simp: pos_matrix_def list_all_length)

lemma sum_list_pos_real:
  fixes xs :: "real list"
  assumes "xs \<noteq> []" and "\<forall>i<length xs. 0 < xs ! i"
  shows "0 < sum_list xs"
proof -
  have "\<forall>x\<in>set xs. 0 < x" using assms(2) by (auto simp: in_set_conv_nth)
  with assms(1) show ?thesis
    by (induction xs) (auto intro: add_pos_nonneg sum_list_nonneg less_imp_le)
qed

lemma ncols_pos_matrix: "pos_matrix K B Q \<Longrightarrow> 0 < K \<Longrightarrow> ncols Q = B"
  by (cases Q) (auto simp: pos_matrix_def ncols_def)

lemma sum_dim1_pos:
  assumes "pos_matrix K B Q" "0 < B"
  shows "length (sum_dim1 Q) = K" and "\<forall>i<K. 0 < sum_dim1 Q ! i"
  using assms by (auto simp: sum_dim1_def pos_matrix_nth intro!: sum_list_pos_real)

lemma sum_dim0_pos:
  assumes "pos_matrix K B Q" "0 < K"
  shows "length (sum_dim0 Q) = B" and "\<forall>j<B. 0 < sum_dim0 Q ! j"
  using assms ncols_pos_matrix[OF assms]
  by (auto simp: sum_dim0_def column_def pos_matrix_nth intro!: sum_list_pos_real)

lemma torch_sum_pos:
  assumes "pos_matrix K B Q" "0 < K" "0 < B"
  shows "0 < torch_sum Q"
  using assms sum_dim1_pos[OF assms(1,3)]
  by (auto simp: torch_sum_def sum_dim1_def intro!: sum_list_pos_real)

lemma div_scalar_pos: "pos_matrix K B Q \<Longrightarrow> 0 < s \<Longrightarrow> pos_matrix K B (div_scalar Q s)"
  by (auto simp: pos_matrix_nth div_scalar_def)

lemma mul_unsqueeze1_pos:
  "pos_matrix K B Q \<Longrightarrow> length v = K \<Longrightarrow> \<forall>i<K. 0 < v ! i \<Longrightarrow> pos_matrix K B (mul_unsqueeze1 Q v)"
  by (auto simp: pos_matrix_nth mul_unsqueeze1_def)

lemma mul_unsqueeze0_pos:
  "pos_matrix K B Q \<Longrightarrow> length v = B \<Longrightarrow> \<forall>j<B. 0 < v ! j \<Longrightarrow> pos_matrix K B (mul_unsqueeze0 Q v)"
  by (auto simp: pos_matrix_nth mul_unsqueeze0_def)

lemma sinkhorn_body_pos:
  assumes Q: "pos_matrix K B Q" and K: "0 < K" and B: "0 < B"
    and a: "0 < a" and b: "0 < b"
  shows "pos_matrix K B (sinkhorn_body (ones_div K a) (ones_div B b) Q)"
proof -
  let ?v = "map2 (/) (ones_div K a) (sum_dim1 Q)"
  have v: "length ?v = K" "\<forall>i<K. 0 < ?v ! i"
    using sum_dim1_pos[OF Q B] a by (auto simp: ones_div_def)
  have Q1: "pos_matrix K B (mul_unsqueeze1 Q ?v)"
    by (rule mul_unsqueeze1_pos[OF Q v])
  let ?w = "map2 (/) (ones_div B b) (sum_dim0 (mul_unsqueeze1 Q ?v))"
  have w: "length ?w = B" "\<forall>j<B. 0 < ?w ! j"
    using sum_dim0_pos[OF Q1 K] b by (auto simp: ones_div_def)
  show ?thesis
    unfolding sinkhorn_body_def Let_def by (rule mul_unsqueeze0_pos[OF Q1 w])
qed

lemma sinkhorn_loop_pos:
  assumes "pos_matrix K B Q" "0 < K" "0 < B" "0 < a" "0 < b"
  shows "pos_matrix K B (sinkhorn_loop (ones_div K a) (ones_div B b) n Q)"
  using assms by (induction n arbitrary: Q) (auto intro: sinkhorn_body_pos)

lemma sum_list_map_divide:
  fixes f :: "'a \<Rightarrow> real"
  shows "sum_list (map (\<lambda>x. f x / c) xs) = sum_list (map f xs) / c"
  by (induction xs) (auto simp: add_divide_distrib)

lemma normalized_transpose:
  assumes Q: "pos_matrix K B Q" and K: "0 < K"
  defines "R \<equiv> mat_t (div_keepdim0 Q (sum_dim0 Q))"
  shows "length R = B" and "\<forall>j<B. length (R ! j) = K \<and> sum_list (R ! j) = 1 \<and> (\<forall>i<K. 0 < R ! j ! i)"
proof -
  let ?cs = "sum_dim0 Q"
  let ?Q' = "div_keepdim0 Q ?cs"
  have cs: "length ?cs = B" "\<forall>j<B. 0 < ?cs ! j" using sum_dim0_pos[OF Q K] by auto
  have len: "length Q = K" and rows: "\<forall>i<K. length (Q ! i) = B"
    using Q by (auto simp: pos_matrix_nth)
  have nc: "ncols ?Q' = B"
    using K len rows cs(1) by (cases Q) (auto simp: ncols_def div_keepdim0_def)
  show "length R = B" by (simp add: R_def mat_t_def nc)
  show "\<forall>j<B. length (R ! j) = K \<and> sum_list (R ! j) = 1 \<and> (\<forall>i<K. 0 < R ! j ! i)"
  proof (intro allI impI)
    fix j assume j: "j < B"
    have "R ! j = column ?Q' j"
      using j by (simp add: R_def mat_t_def nc)
    also have "\<dots> = map (\<lambda>r. r ! j / ?cs ! j) Q"
      using j cs(1) rows len
      by (auto simp: column_def div_keepdim0_def in_set_conv_nth)
    finally have Rj: "R ! j = map (\<lambda>r. r ! j / ?cs ! j) Q" .
    have "sum_list (R ! j) = sum_list (map (\<lambda>r. r ! j) Q) / ?cs ! j"
      unfolding Rj by (rule sum_list_map_divide)
    also have "sum_list (map (\<lambda>r. r ! j) Q) = ?cs ! j"
      using j K ncols_pos_matrix[OF Q K] by (simp add: sum_dim0_def column_def)
    finally have s: "sum_list (R ! j) = 1" using cs(2) j by fastforce
    have p: "\<forall>i<K. 0 < R ! j ! i"
      using Q j cs(2) len by (auto simp: Rj pos_matrix_nth)
    show "length (R ! j) = K \<and> sum_list (R ! j) = 1 \<and> (\<forall>i<K. 0 < R ! j ! i)"
      using s p len by (simp add: Rj)
  qed
qed

lemma sinkhorn_rows_sum_1:
  assumes Q: "pos_matrix K B Q" and K: "0 < K" and B: "0 < B"
  shows "length (sinkhorn Q n) = B"
    and "\<forall>j<B. length (sinkhorn Q n ! j) = K \<and> sum_list (sinkhorn Q n ! j) = 1 \<and> (\<forall>i<K. 0 < sinkhorn Q n ! j ! i)"
proof -
  let ?Q1 = "div_scalar Q (torch_sum Q)"
  have Q1: "pos_matrix K B ?Q1"
    by (rule div_scalar_pos[OF Q torch_sum_pos[OF Q K B]])
  have sh: "length ?Q1 = K" "ncols ?Q1 = B"
    using Q1 ncols_pos_matrix[OF Q1 K] by (auto simp: pos_matrix_nth)
  have Q2: "pos_matrix K B (sinkhorn_loop (ones_div K (real K)) (ones_div B (real B)) n ?Q1)"
    using sinkhorn_loop_pos[OF Q1 K B] K B by simp
  show "length (sinkhorn Q n) = B"
    unfolding sinkhorn_def Let_def sh by (rule normalized_transpose(1)[OF Q2 K])
  show "\<forall>j<B. length (sinkhorn Q n ! j) = K \<and> sum_list (sinkhorn Q n ! j) = 1 \<and> (\<forall>i<K. 0 < sinkhorn Q n ! j ! i)"
    unfolding sinkhorn_def Let_def sh by (rule normalized_transpose(2)[OF Q2 K])
qed

text \<open>
  C1, as the code has it. For a strictly positive \<open>K \<times> B\<close> matrix (\<open>K, B > 0\<close>) and any
  number of iterations, the engine without a distributed context returns a strictly
  positive \<open>B \<times> K\<close> matrix each of whose rows sums to 1: the rows of the result are the
  columns of the normalised \<open>K \<times> B\<close> matrix, which the last line transposes.
\<close>

theorem distributed_sinkhorn_rows_sum_1:
  assumes "pos_matrix K B Q" and "0 < K" and "0 < B"
  shows "pos_matrix B K (distributed_sinkhorn None Q N) \<and>
         sum_dim1 (distributed_sinkhorn None Q N) = replicate B 1"
proof -
  let ?R = "distributed_sinkhorn None Q N"
  have R: "?R = sinkhorn Q N" by (simp add: distributed_sinkhorn_single)
  have len: "length ?R = B"
    and rows: "\<forall>j<B. length (?R ! j) = K \<and> sum_list (?R ! j) = 1 \<and> (\<forall>i<K. 0 < ?R ! j ! i)"
    unfolding R using sinkhorn_rows_sum_1[OF assms] by blast+
  have "pos_matrix B K ?R"
    using len rows by (simp add: pos_matrix_nth)
  moreover have "sum_dim1 ?R = replicate B 1"
    using len rows by (auto simp: sum_dim1_def intro!: nth_equalityI)
  ultimately show ?thesis by blast
qed

theorem distributed_sinkhorn_rows_sum_1_witness:
  "pos_matrix 2 2 [[1, 3], [2, 2]] \<and>
   distributed_sinkhorn None [[1, 3], [2, 2]] 1 = [[1 / 3, 2 / 3], [3 / 5, 2 / 5]] \<and>
   sum_dim1 (distributed_sinkhorn None [[1, 3], [2, 2]] 1) = [1, 1]"
proof -
  have p: "pos_matrix 2 2 [[1, 3], [2, 2]]" by (simp add: pos_matrix_def)
  have "replicate 2 (1::real) = [1, 1]" by (simp add: numeral_2_eq_2)
  moreover have "distributed_sinkhorn None [[1, 3], [2, 2]] 1 = [[1 / 3, 2 / 3], [3 / 5, 2 / 5]]"
    by code_simp
  ultimately show ?thesis
    using p distributed_sinkhorn_rows_sum_1[OF p, of 1] by simp
qed

text \<open>
  C1, as the claim words it, fails: on the positive \<open>2 \<times> 2\<close> matrix below, after one
  iteration, the columns of the returned matrix sum to \<open>14/15\<close> and \<open>16/15\<close>.
\<close>

theorem distributed_sinkhorn_columns_counterexample:
  "pos_matrix 2 2 [[1, 3], [2, 2]] \<and>
   sum_dim0 (distributed_sinkhorn None [[1, 3], [2, 2]] 1) = [14 / 15, 16 / 15]"
proof -
  have "sum_dim0 (distributed_sinkhorn None [[1, 3], [2, 2]] 1) = [14 / 15, 16 / 15]"
    by code_simp
  then show ?thesis by (simp add: pos_matrix_def)
qed

section \<open>Properties of the module\<close>

subsection \<open>Learning-rate schedule\<close>








subsection \<open>Prototype gradients\<close>

lemma str_in_sublist: "str_in sub s \<longleftrightarrow> sublist sub s"
  by (induction s) (auto simp: sublist_Cons_right)

lemma str_in_iff: "str_in sub s \<longleftrightarrow> (\<exists>pre post. s = pre @ sub @ post)"
  by (simp add: str_in_sublist sublist_def)

text \<open>
  C9. While the current epoch is below \<^verbatim>\<open>freeze_prototypes_epochs\<close>,
  \<^verbatim>\<open>on_after_backward\<close> keeps the names and the data of all parameters, sets the gradient
  of every parameter whose name contains \<^verbatim>\<open>prototypes\<close> to \<^verbatim>\<open>None\<close> and leaves every other
  parameter as it is; from the threshold on it changes nothing.
\<close>

theorem on_after_backward_gate:
  fixes ps :: "(string \<times> 'a parameter) list"
  shows "(current_epoch tr < freeze_prototypes_epochs s \<longrightarrow>
      length (on_after_backward tr s ps) = length ps \<and>
      (\<forall>i<length ps. 
         fst (on_after_backward tr s ps ! i) = fst (ps ! i) \<and>
         data (snd (on_after_backward tr s ps ! i)) = data (snd (ps ! i)) \<and>
         (str_in ''prototypes'' (fst (ps ! i)) \<longrightarrow> grad (snd (on_after_backward tr s ps ! i)) = None) \<and>
         (\<not> str_in ''prototypes'' (fst (ps ! i)) \<longrightarrow> on_after_backward tr s ps ! i = ps ! i))) \<and>
     (freeze_prototypes_epochs s \<le> current_epoch tr \<longrightarrow> on_after_backward tr s ps = ps)"
  by (auto simp: on_after_backward_def split: prod.splits)

theorem on_after_backward_gate_witness:
  "current_epoch \<lparr>num_training_batches = 2, current_epoch = 0, gpus = 1, global_step = 0\<rparr>
     < freeze_prototypes_epochs (init None []) \<and>
   str_in ''prototypes'' ''model.prototypes.weight'' \<and>
   \<not> str_in ''prototypes'' ''model.conv1.weight'' \<and>
   on_after_backward \<lparr>num_training_batches = 2, current_epoch = 0, gpus = 1, global_step = 0\<rparr>
     (init None [])
     [(''model.conv1.weight'', \<lparr>data = 3::int, grad = Some 7\<rparr>),
      (''model.prototypes.weight'', \<lparr>data = 4, grad = Some 9\<rparr>)]
   = [(''model.conv1.weight'', \<lparr>data = 3, grad = Some 7\<rparr>),
      (''model.prototypes.weight'', \<lparr>data = 4, grad = None\<rparr>)] \<and>
   freeze_prototypes_epochs (init None [])
     \<le> current_epoch \<lparr>num_training_batches = 2, current_epoch = 1, gpus = 1, global_step = 0\<rparr> \<and>
   on_after_backward \<lparr>num_training_batches = 2, current_epoch = 1, gpus = 1, global_step = 0\<rparr>
     (init None [])
     [(''model.conv1.weight'', \<lparr>data = 3::int, grad = Some 7\<rparr>),
      (''model.prototypes.weight'', \<lparr>data = 4, grad = Some 9\<rparr>)]
   = [(''model.conv1.weight'', \<lparr>data = 3, grad = Some 7\<rparr>),
      (''model.prototypes.weight'', \<lparr>data = 4, grad = Some 9\<rparr>)]"
  using on_after_backward_gate[of
      "\<lparr>num_training_batches = 2, current_epoch = 0, gpus = 1, global_step = 0\<rparr>" "init None []"
      "[(''model.conv1.weight'', \<lparr>data = 3::int, grad = Some 7\<rparr>),
        (''model.prototypes.weight'', \<lparr>data = 4, grad = Some 9\<rparr>)]"]
    on_after_backward_gate[of
      "\<lparr>num_training_batches = 2, current_epoch = 1, gpus = 1, global_step = 0\<rparr>" "init None []"
      "[(''model.conv1.weight'', \<lparr>data = 3::int, grad = Some 7\<rparr>),
        (''model.prototypes.weight'', \<lparr>data = 4, grad = Some 9\<rparr>)]"]
  by (simp add: init_def on_after_backward_def)

subsection \<open>Feature queue\<close>

lemma setitem_rows_same: "length src = n \<Longrightarrow> setitem_rows n src = Inr src"
  by (simp add: setitem_rows_def)

lemma fill_queue_shift:
  assumes "0 < B" and "B \<le> length qi"
    and "length (py_slice (crop_id * B) ((crop_id + 1) * B) embedding) = B"
  shows "fill_queue B embedding crop_id qi =
           Inr (py_slice (crop_id * B) ((crop_id + 1) * B) embedding @ take (length qi - B) qi)"
  using assms
  by (simp add: fill_queue_def bind_def slice_to_neg_def setitem_rows_same Let_def min_def)

lemma fill_queue_steps_shift:
  assumes "0 < B" and "length es * B \<le> length qi"
    and "list_all (\<lambda>e. length (crop_rows B crop_id e) = B) es"
  shows "fill_queue_steps B crop_id es qi =
           Inr (concat (rev (map (crop_rows B crop_id) es)) @ take (length qi - length es * B) qi)"
  using assms
proof (induction es arbitrary: qi)
  case Nil
  then show ?case by simp
next
  case (Cons e es)
  let ?b = "crop_rows B crop_id e"
  let ?q1 = "?b @ take (length qi - B) qi"
  have B: "B \<le> length qi" and b: "length ?b = B" using Cons.prems by auto
  have f: "fill_queue B e crop_id qi = Inr ?q1"
    using fill_queue_shift[OF Cons.prems(1) B] b by (simp add: crop_rows_def)
  have l1: "length ?q1 = length qi" using B b by simp
  have "fill_queue_steps B crop_id es ?q1 =
          Inr (concat (rev (map (crop_rows B crop_id) es)) @ take (length ?q1 - length es * B) ?q1)"
    using Cons.prems by (intro Cons.IH) (auto simp: l1 simp del: length_append)
  moreover have "take (length ?q1 - length es * B) ?q1 = ?b @ take (length qi - length (e # es) * B) qi"
    using Cons.prems(2) b B unfolding l1 by (simp add: min_def add.commute)
  ultimately show ?case by (simp add: f bind_def)
qed

text \<open>
  C6. On a slot of capacity \<open>C > 0\<close>, a multiple of the batch size \<open>B > 0\<close>, one step
  with \<open>B\<close> embeddings for the crop writes them into the first \<open>B\<close> rows and moves the
  first \<open>C - B\<close> old rows back by \<open>B\<close>, so that the last \<open>B\<close> old rows are gone; after
  \<open>C div B\<close> steps the slot holds the inserted embeddings, the latest first, and nothing
  of its first content.
\<close>

theorem fill_queue_fifo:
  assumes "0 < B" and "0 < C" and "B dvd C" and "length qi = C"
  shows "(length (crop_rows B crop_id e) = B \<longrightarrow>
            (\<exists>qi'. fill_queue B e crop_id qi = Inr qi' \<and> length qi' = C \<and>
               take B qi' = crop_rows B crop_id e \<and> drop B qi' = take (C - B) qi)) \<and>
         (length es = C div B \<and> list_all (\<lambda>e. length (crop_rows B crop_id e) = B) es \<longrightarrow>
            fill_queue_steps B crop_id es qi = Inr (concat (rev (map (crop_rows B crop_id) es))))"
proof -
  have BC: "B \<le> C" using assms(2,3) by (simp add: dvd_imp_le)
  have one: "fill_queue B e crop_id qi = Inr (crop_rows B crop_id e @ take (C - B) qi)"
    if "length (crop_rows B crop_id e) = B"
    using fill_queue_shift[of B qi crop_id e] that assms(1,4) BC by (simp add: crop_rows_def)
  have many: "fill_queue_steps B crop_id es qi = Inr (concat (rev (map (crop_rows B crop_id) es)))"
    if "length es = C div B" and "list_all (\<lambda>e. length (crop_rows B crop_id e) = B) es"
  proof -
    have "length es * B = C" using that(1) assms(3) by simp
    then show ?thesis
      using fill_queue_steps_shift[OF assms(1) _ that(2), of qi] assms(4) by simp
  qed
  show ?thesis using one many BC assms(4) by auto
qed

theorem fill_queue_fifo_witness:
  "(0::nat) < 1 \<and> (0::nat) < 2 \<and> (1::nat) dvd 2 \<and> length [[7, 7], [8, 8::real]] = 2 \<and>
   length (crop_rows 1 1 [[1, 1], [2, 2]]) = 1 \<and>
   fill_queue 1 [[1, 1], [2, 2]] 1 [[7, 7], [8, 8]] = Inr [[2, 2], [7, 7]] \<and>
   length [[[1, 1], [2, 2]], [[3, 3], [4, 4::real]]] = 2 div 1 \<and>
   list_all (\<lambda>e. length (crop_rows 1 1 e) = 1) [[[1, 1], [2, 2]], [[3, 3], [4, 4]]] \<and>
   fill_queue_steps 1 1 [[[1, 1], [2, 2]], [[3, 3], [4, 4]]] [[7, 7], [8, 8]] = Inr [[4, 4], [2, 2]]"
  using fill_queue_fifo[of 1 2 "[[7, 7], [8, 8]]" 1 "[[1, 1], [2, 2]]" "[[[1, 1], [2, 2]], [[3, 3], [4, 4]]]"]
  by (simp add: crop_rows_def py_slice_def fill_queue_def bind_def setitem_rows_def
      slice_to_neg_def)

subsection \<open>The shared step\<close>

lemma bind_Inr_iff: "bind m f = Inr y \<longleftrightarrow> (\<exists>x. m = Inr x \<and> f x = Inr y)"
  by (cases m) (simp_all add: bind_def)

lemma bind_Inr: "bind (Inr x) f = f x"
  by (simp add: bind_def)

lemma queue_in_use_latched: "use_the_queue s = Some True \<Longrightarrow> queue_in_use s qs i = Inr True"
  by (simp add: queue_in_use_def)

lemma queue_in_use_Inr:
  assumes "queue_in_use s qs i = Inr b"
  shows "b \<longleftrightarrow> use_the_queue s = Some True \<or>
           (use_the_queue s = Some False \<and> i < length qs \<and> qs ! i \<noteq> [] \<and>
            \<not> list_all (\<lambda>x. x = 0) (last (qs ! i)))"
  using assms
  by (auto simp: queue_in_use_def split: option.splits if_splits list.splits)

lemma queue_in_use_Inr_Some: "queue_in_use s qs i = Inr b \<Longrightarrow> \<exists>u. use_the_queue s = Some u"
  by (auto simp: queue_in_use_def split: option.splits)

lemma queue_block_None: "queue s = None \<Longrightarrow> queue_block bs emb s i c out = Inr (s, out)"
  by (simp add: queue_block_def)

lemma queue_block_SomeI:
  assumes "queue s = Some qs" and "i < length qs"
    and "queue_in_use s qs i = Inr use" and "fill_queue bs emb c (qs ! i) = Inr qi"
  shows "queue_block bs emb s i c out =
     Inr (s\<lparr>queue := Some (qs[i := qi]),
            use_the_queue := (if use then Some True else use_the_queue s)\<rparr>,
          if use then mm (qs ! i) (mat_t (prototypes_weight s)) @ out else out)"
  using assms by (simp add: queue_block_def bind_Inr)

lemma queue_block_SomeD:
  assumes "queue s = Some qs" and "queue_block bs emb s i c out = Inr (s1, out1)"
  shows "i < length qs \<and> (\<exists>use qi. queue_in_use s qs i = Inr use \<and>
           fill_queue bs emb c (qs ! i) = Inr qi \<and>
           s1 = s\<lparr>queue := Some (qs[i := qi]),
                  use_the_queue := (if use then Some True else use_the_queue s)\<rparr> \<and>
           out1 = (if use then mm (qs ! i) (mat_t (prototypes_weight s)) @ out else out))"
proof -
  from assms obtain use where use: "queue_in_use s qs i = Inr use"
    by (auto simp: queue_block_def bind_Inr_iff)
  from assms use have i: "i < length qs"
    by (auto simp: queue_block_def bind_Inr_iff split: if_splits)
  from assms use i obtain qi where qi: "fill_queue bs emb c (qs ! i) = Inr qi"
    by (auto simp: queue_block_def bind_Inr_iff split: if_splits)
  from assms(2) show ?thesis
    unfolding queue_block_SomeI[OF assms(1) i use qi] using i use qi by auto
qed

lemma queue_block_frame:
  assumes "queue_block bs emb s i c out = Inr (s1, out1)"
  shows "s1 = s\<lparr>queue := queue s1, use_the_queue := use_the_queue s1\<rparr>"
proof (cases "queue s")
  case None
  then show ?thesis using assms by (simp add: queue_block_None)
next
  case (Some qs)
  from queue_block_SomeD[OF Some assms] show ?thesis by auto
qed

lemma assign_block_Inr:
  assumes "assign_block bs emb output s i c = Inr (s1, q)"
  shows "\<exists>out1. queue_block bs emb s i c (py_slice (bs * c) (bs * (c + 1)) output) = Inr (s1, out1) \<and>
     q = slice_from_neg bs (get_assignments s1
           (mat_t (map (map (\<lambda>x. exp (x / epsilon s1))) out1)) (sinkhorn_iterations s1))"
  using assms by (auto simp: assign_block_def bind_Inr_iff Let_def)

lemma assign_block_frame:
  assumes "assign_block bs emb output s i c = Inr (s1, q)"
  shows "s1 = s\<lparr>queue := queue s1, use_the_queue := use_the_queue s1\<rparr>"
  using assign_block_Inr[OF assms] queue_block_frame by blast

lemma crops_loop_Cons_Inr:
  assumes "crops_loop bs emb output ((i, c) # rest) s loss = Inr (s', loss')"
  shows "\<exists>s1 q vs subloss. assign_block bs emb output s i c = Inr (s1, q) \<and>
     np_delete_arange (sum_list (nmb_crops s1)) c = Inr vs \<and>
     subloss_loop s1 bs output q vs 0 = Inr subloss \<and>
     crops_loop bs emb output rest s1 (loss + subloss / (real (sum_list (nmb_crops s1)) - 1))
       = Inr (s', loss')"
  using assms by (auto simp: bind_Inr_iff)

lemma crops_loop_frame:
  "crops_loop bs emb output ics s loss = Inr (s', loss') \<Longrightarrow>
     s' = s\<lparr>queue := queue s', use_the_queue := use_the_queue s'\<rparr>"
proof (induction ics arbitrary: s loss)
  case Nil
  then show ?case by simp
next
  case (Cons ic ics)
  obtain i c where ic: "ic = (i, c)" by (cases ic)
  from crops_loop_Cons_Inr[OF Cons.prems[unfolded ic]]
  obtain s1 q l1 where a: "assign_block bs emb output s i c = Inr (s1, q)"
    and r: "crops_loop bs emb output ics s1 l1 = Inr (s', loss')" by blast
  have 1: "s1 = s\<lparr>queue := queue s1, use_the_queue := use_the_queue s1\<rparr>"
    by (rule assign_block_frame[OF a])
  have 2: "s' = s1\<lparr>queue := queue s', use_the_queue := use_the_queue s'\<rparr>"
    by (rule Cons.IH[OF r])
  show ?case by (subst 2, subst 1) simp
qed





subsection \<open>Shapes\<close>

lemma length_sum_dim0: "length (sum_dim0 Q) = ncols Q"
  by (simp add: sum_dim0_def)

lemma length_mat_t: "length (mat_t Q) = ncols Q"
  by (simp add: mat_t_def)

lemma ncols_mat_t: "0 < ncols Q \<Longrightarrow> ncols (mat_t Q) = length Q"
  by (simp add: mat_t_def ncols_def column_def upt_rec split: list.splits)

lemma shape_div_scalar: "length (div_scalar Q s) = length Q" "ncols (div_scalar Q s) = ncols Q"
  by (simp_all add: div_scalar_def ncols_def split: list.splits)

lemma ncols_map_map: "ncols (map (map f) Q) = ncols Q"
  by (simp add: ncols_def split: list.splits)

lemma shape_mul_unsqueeze1:
  "length v = length Q \<Longrightarrow> length (mul_unsqueeze1 Q v) = length Q \<and> ncols (mul_unsqueeze1 Q v) = ncols Q"
  by (cases Q; cases v) (simp_all add: mul_unsqueeze1_def ncols_def)

lemma shape_mul_unsqueeze0:
  "length v = ncols Q \<Longrightarrow> length (mul_unsqueeze0 Q v) = length Q \<and> ncols (mul_unsqueeze0 Q v) = ncols Q"
  by (cases Q) (simp_all add: mul_unsqueeze0_def ncols_def)

lemma shape_div_keepdim0:
  "length v = ncols Q \<Longrightarrow> ncols (div_keepdim0 Q v) = ncols Q"
  by (cases Q) (simp_all add: div_keepdim0_def ncols_def)

lemma shape_sinkhorn_body:
  assumes "length r = length Q" and "length c = ncols Q"
  shows "length (sinkhorn_body r c Q) = length Q \<and> ncols (sinkhorn_body r c Q) = ncols Q"
proof -
  let ?v = "map2 (/) r (sum_dim1 Q)"
  have v: "length ?v = length Q" using assms(1) by (simp add: sum_dim1_def)
  note 1 = shape_mul_unsqueeze1[OF v]
  let ?w = "map2 (/) c (sum_dim0 (mul_unsqueeze1 Q ?v))"
  have w: "length ?w = ncols (mul_unsqueeze1 Q ?v)"
    using assms(2) 1 by (simp add: length_sum_dim0)
  from shape_mul_unsqueeze0[OF w] 1 show ?thesis
    by (simp add: sinkhorn_body_def Let_def)
qed

lemma shape_sinkhorn_loop:
  "length r = length Q \<Longrightarrow> length c = ncols Q \<Longrightarrow>
     length (sinkhorn_loop r c n Q) = length Q \<and> ncols (sinkhorn_loop r c n Q) = ncols Q"
proof (induction n arbitrary: Q)
  case 0
  then show ?case by simp
next
  case (Suc n)
  from shape_sinkhorn_body[OF Suc.prems] Suc.IH[of "sinkhorn_body r c Q"] Suc.prems
  show ?case by simp
qed

lemma length_sinkhorn: "length (sinkhorn Q n) = ncols Q"
proof -
  let ?Q1 = "div_scalar Q (torch_sum Q)"
  let ?Q2 = "sinkhorn_loop (ones_div (length ?Q1) (real (length ?Q1)))
               (ones_div (ncols ?Q1) (real (ncols ?Q1))) n ?Q1"
  have "ncols ?Q2 = ncols ?Q1"
    using shape_sinkhorn_loop[of _ ?Q1] by (simp add: ones_div_def)
  then have "ncols (div_keepdim0 ?Q2 (sum_dim0 ?Q2)) = ncols Q"
    by (simp add: shape_div_keepdim0 length_sum_dim0 shape_div_scalar)
  then show ?thesis
    by (simp add: sinkhorn_def Let_def length_mat_t)
qed

lemma length_mm: "length (mm A B) = length A"
  by (simp add: mm_def)

lemma ncols_mm: "A \<noteq> [] \<Longrightarrow> ncols (mm A B) = ncols B"
  by (cases A) (simp_all add: mm_def ncols_def)

lemma ncols_append: "A \<noteq> [] \<Longrightarrow> ncols (A @ B) = ncols A"
  by (cases A) (simp_all add: ncols_def)

subsection \<open>Assignments with the queue, and the latch\<close>

text \<open>
  C5. When the queue adds its rows to the logits of an assignment crop (the latch is set
  or the oldest row of the slot is not zero), the engine runs on the rows of the queue
  followed by the \<open>bs\<close> rows of the batch and returns one row for each; the block returns
  only the last \<open>bs\<close> of them, the rows of the batch, and these alone are the targets of
  the loss, which is computed from what the block returns.
\<close>

theorem assign_block_last_rows:
  assumes q: "queue s = Some qs" and i: "i < length qs" and Lq: "qs ! i \<noteq> []"
    and use: "use_the_queue s = Some True \<or>
              (use_the_queue s = Some False \<and> \<not> list_all (\<lambda>x. x = 0) (last (qs ! i)))"
    and ga: "get_assignments s = distributed_sinkhorn None"
    and W: "prototypes_weight s \<noteq> []" "0 < ncols (prototypes_weight s)"
    and bs: "0 < bs" "length (py_slice (bs * c) (bs * (c + 1)) output) = bs"
    and fill: "fill_queue bs emb c (qs ! i) = Inr qi"
  shows "\<exists>full. full = distributed_sinkhorn None
             (mat_t (map (map (\<lambda>x. exp (x / epsilon s)))
                (mm (qs ! i) (mat_t (prototypes_weight s)) @ py_slice (bs * c) (bs * (c + 1)) output)))
             (sinkhorn_iterations s) \<and>
           length full = length (qs ! i) + bs \<and>
           assign_block bs emb output s i c =
             Inr (s\<lparr>queue := Some (qs[i := qi]), use_the_queue := Some True\<rparr>,
                  drop (length (qs ! i)) full) \<and>
           length (drop (length (qs ! i)) full) = bs"
proof -
  let ?out = "py_slice (bs * c) (bs * (c + 1)) output"
  let ?out1 = "mm (qs ! i) (mat_t (prototypes_weight s)) @ ?out"
  let ?X = "map (map (\<lambda>x. exp (x / epsilon s))) ?out1"
  let ?full = "distributed_sinkhorn None (mat_t ?X) (sinkhorn_iterations s)"
  let ?s1 = "s\<lparr>queue := Some (qs[i := qi]), use_the_queue := Some True\<rparr>"
  have inuse: "queue_in_use s qs i = Inr True"
    using use i Lq by (auto simp: queue_in_use_def split: list.splits)
  have qb: "queue_block bs emb s i c ?out = Inr (?s1, ?out1)"
    using queue_block_SomeI[OF q i inuse fill, of ?out] by simp
  have mmne: "mm (qs ! i) (mat_t (prototypes_weight s)) \<noteq> []"
    using Lq by (simp add: mm_def)
  have "ncols ?out1 = ncols (mm (qs ! i) (mat_t (prototypes_weight s)))"
    by (rule ncols_append[OF mmne])
  also have "\<dots> = ncols (mat_t (prototypes_weight s))" by (rule ncols_mm[OF Lq])
  also have "\<dots> = length (prototypes_weight s)" by (rule ncols_mat_t[OF W(2)])
  finally have nc: "ncols ?X = length (prototypes_weight s)" by (simp only: ncols_map_map)
  have "0 < ncols ?X" using nc W(1) by simp
  then have "ncols (mat_t ?X) = length ?out1" by (simp add: ncols_mat_t)
  then have len: "length ?full = length (qs ! i) + bs"
    using bs(2) by (simp add: distributed_sinkhorn_single length_sinkhorn length_mm)
  have ab: "assign_block bs emb output s i c = Inr (?s1, slice_from_neg bs ?full)"
    unfolding assign_block_def Let_def qb bind_Inr by (simp add: ga)
  have "slice_from_neg bs ?full = drop (length (qs ! i)) ?full"
    using bs(1) len by (simp add: slice_from_neg_def)
  with ab len show ?thesis by simp
qed




lemma shared_step_Inr:
  assumes "shared_step b s = Inr (s', loss)"
  shows "\<exists>l. crops_loop (batch_size b) (fst (forward b (normalize_dim1 (prototypes_weight s))))
                (snd (forward b (normalize_dim1 (prototypes_weight s))))
                (enumerate 0 (crops_for_assign s))
                (s\<lparr>prototypes_weight := normalize_dim1 (prototypes_weight s)\<rparr>) 0 = Inr (s', l)"
  using assms
  by (auto simp: shared_step_def Let_def bind_Inr_iff split: prod.splits if_splits)






subsection \<open>Validation\<close>

lemma crops_loop_prototypes:
  assumes "crops_loop bs emb output ics s loss = Inr (s', loss')"
  shows "prototypes_weight s' = prototypes_weight s"
  by (subst crops_loop_frame[OF assms]) simp

lemma crops_loop_queue:
  "crops_loop bs emb output (enumerate k cs) s loss = Inr (s', loss') \<Longrightarrow> queue s = Some qs \<Longrightarrow>
     \<exists>qs'. queue s' = Some qs' \<and> length qs' = length qs \<and>
       (cs \<noteq> [] \<longrightarrow> k + length cs \<le> length qs) \<and>
       (\<forall>j. j < k \<or> k + length cs \<le> j \<longrightarrow> qs' ! j = qs ! j) \<and>
       (\<forall>j<length cs. fill_queue bs emb (cs ! j) (qs ! (k + j)) = Inr (qs' ! (k + j))) \<and>
       (use_the_queue s = Some True \<or>
        (\<exists>j<length cs. \<not> list_all (\<lambda>x. x = 0) (last (qs ! (k + j))))
          \<longrightarrow> use_the_queue s' = Some True)"
proof (induction cs arbitrary: k s loss qs)
  case Nil
  then show ?case by simp
next
  case (Cons c cs)
  from Cons.prems(1) have "crops_loop bs emb output ((k, c) # enumerate (Suc k) cs) s loss = Inr (s', loss')"
    by simp
  from crops_loop_Cons_Inr[OF this]
  obtain s1 q l1 where a: "assign_block bs emb output s k c = Inr (s1, q)"
    and r: "crops_loop bs emb output (enumerate (Suc k) cs) s1 l1 = Inr (s', loss')" by blast
  from assign_block_Inr[OF a] obtain out1 where
    qb: "queue_block bs emb s k c (py_slice (bs * c) (bs * (c + 1)) output) = Inr (s1, out1)"
    by blast
  from queue_block_SomeD[OF Cons.prems(2) qb] obtain use qi where k: "k < length qs"
    and use: "queue_in_use s qs k = Inr use"
    and fill: "fill_queue bs emb c (qs ! k) = Inr qi"
    and s1: "s1 = s\<lparr>queue := Some (qs[k := qi]),
                  use_the_queue := (if use then Some True else use_the_queue s)\<rparr>"
    by blast
  have q1: "queue s1 = Some (qs[k := qi])" by (simp add: s1)
  from Cons.IH[OF r q1] obtain qs' where qs': "queue s' = Some qs'"
    and len: "length qs' = length qs"
    and bound: "cs \<noteq> [] \<longrightarrow> Suc k + length cs \<le> length qs"
    and same: "\<forall>j. j < Suc k \<or> Suc k + length cs \<le> j \<longrightarrow> qs' ! j = qs[k := qi] ! j"
    and fills: "\<forall>j<length cs. fill_queue bs emb (cs ! j) (qs[k := qi] ! (Suc k + j))
                    = Inr (qs' ! (Suc k + j))"
    and latch: "use_the_queue s1 = Some True \<or>
        (\<exists>j<length cs. \<not> list_all (\<lambda>x. x = 0) (last (qs[k := qi] ! (Suc k + j))))
          \<longrightarrow> use_the_queue s' = Some True"
    by auto
  have 1: "k + length (c # cs) \<le> length qs" using bound k by (cases cs) auto
  have 2: "\<forall>j. j < k \<or> k + length (c # cs) \<le> j \<longrightarrow> qs' ! j = qs ! j"
    using same by auto
  have 3: "fill_queue bs emb ((c # cs) ! j) (qs ! (k + j)) = Inr (qs' ! (k + j))"
    if "j < length (c # cs)" for j
  proof (cases j)
    case 0
    have "qs' ! k = qi" using same k by simp
    then show ?thesis using fill 0 by simp
  next
    case (Suc j')
    with that have "j' < length cs" by simp
    with fills have "fill_queue bs emb (cs ! j') (qs[k := qi] ! (Suc k + j')) = Inr (qs' ! (Suc k + j'))"
      by blast
    then show ?thesis using Suc by simp
  qed
  have 4: "use_the_queue s' = Some True"
    if "use_the_queue s = Some True \<or>
        (\<exists>j<length (c # cs). \<not> list_all (\<lambda>x. x = 0) (last (qs ! (k + j))))"
  proof -
    from that consider "use_the_queue s = Some True"
      | "\<not> list_all (\<lambda>x. x = 0) (last (qs ! k))"
      | j where "j < length cs" "\<not> list_all (\<lambda>x. x = 0) (last (qs ! (Suc k + j)))"
      by (auto simp: less_Suc_eq_0_disj)
    then show ?thesis
    proof cases
      case 1
      then have "use_the_queue s1 = Some True" using use by (simp add: s1 queue_in_use_def)
      with latch show ?thesis by blast
    next
      case 2
      then have "use" using use k
        by (auto simp: queue_in_use_def split: option.splits if_splits list.splits)
      then have "use_the_queue s1 = Some True" by (simp add: s1)
      with latch show ?thesis by blast
    next
      case 3
      then have "\<exists>j<length cs. \<not> list_all (\<lambda>x. x = 0) (last (qs[k := qi] ! (Suc k + j)))"
        by auto
      with latch show ?thesis by blast
    qed
  qed
  show ?case using qs' len 1 2 3 4 by blast
qed

text \<open>
  C10. A validation step is the shared step of training and changes the module: the
  prototype weights are replaced by their normalisation, every slot of an allocated
  queue is filled with the embeddings of the batch, and the latch is set when it was set
  or when the oldest row of a slot is not zero.
\<close>

theorem validation_step_effects:
  assumes "validation_step b s = Inr (s', loss)"
  shows "shared_step b s = Inr (s', loss) \<and>
     prototypes_weight s' = normalize_dim1 (prototypes_weight s) \<and>
     (\<forall>qs. queue s = Some qs \<longrightarrow>
        (\<exists>qs'. queue s' = Some qs' \<and> length qs' = length qs \<and>
           length (crops_for_assign s) \<le> length qs \<and>
           (\<forall>i<length (crops_for_assign s).
              fill_queue (batch_size b) (fst (forward b (normalize_dim1 (prototypes_weight s))))
                (crops_for_assign s ! i) (qs ! i) = Inr (qs' ! i)) \<and>
           (use_the_queue s = Some True \<or>
            (\<exists>i<length (crops_for_assign s). \<not> list_all (\<lambda>x. x = 0) (last (qs ! i)))
              \<longrightarrow> use_the_queue s' = Some True)))"
proof -
  let ?w = "normalize_dim1 (prototypes_weight s)"
  let ?s1 = "s\<lparr>prototypes_weight := ?w\<rparr>"
  have ss: "shared_step b s = Inr (s', loss)" using assms by (simp add: validation_step_def)
  from shared_step_Inr[OF ss] obtain l where
    cl: "crops_loop (batch_size b) (fst (forward b ?w)) (snd (forward b ?w))
           (enumerate 0 (crops_for_assign s)) ?s1 0 = Inr (s', l)" by blast
  have w: "prototypes_weight s' = ?w" using crops_loop_prototypes[OF cl] by simp
  have q: "\<exists>qs'. queue s' = Some qs' \<and> length qs' = length qs \<and>
           length (crops_for_assign s) \<le> length qs \<and>
           (\<forall>i<length (crops_for_assign s).
              fill_queue (batch_size b) (fst (forward b ?w))
                (crops_for_assign s ! i) (qs ! i) = Inr (qs' ! i)) \<and>
           (use_the_queue s = Some True \<or>
            (\<exists>i<length (crops_for_assign s). \<not> list_all (\<lambda>x. x = 0) (last (qs ! i)))
              \<longrightarrow> use_the_queue s' = Some True)"
    if "queue s = Some qs" for qs
  proof -
    have "queue ?s1 = Some qs" using that by simp
    from crops_loop_queue[OF cl this] show ?thesis by auto
  qed
  show ?thesis using ss w q by blast
qed

section \<open>Examples\<close>

lemmas tensor_defs = ncols_def column_def mat_t_def torch_sum_def sum_dim1_def sum_dim0_def
  div_scalar_def mul_unsqueeze1_def mul_unsqueeze0_def div_keepdim0_def ones_div_def

lemma sinkhorn_loop_fixed: "sinkhorn_body r c Q = Q \<Longrightarrow> sinkhorn_loop r c n Q = Q"
  by (induction n) simp_all

lemma ex_sinkhorn_1: "distributed_sinkhorn None [[1], [1]] n = [[1 / 2, 1 / 2]]"
proof -
  have b: "sinkhorn_body [1 / 2, 1 / 2] [1] [[1 / 2], [1 / 2]] = [[1 / 2], [1 / 2]]"
    by (simp add: sinkhorn_body_def tensor_defs upt_rec)
  show ?thesis
    by (simp add: distributed_sinkhorn_single sinkhorn_def tensor_defs upt_rec numeral_2_eq_2
        sinkhorn_loop_fixed[OF b])
qed

lemma ex_sinkhorn_2:
  "distributed_sinkhorn None [[1, 1], [1, 1]] n = [[1 / 2, 1 / 2], [1 / 2, 1 / 2]]"
proof -
  have b: "sinkhorn_body [1 / 2, 1 / 2] [1 / 2, 1 / 2] [[1 / 4, 1 / 4], [1 / 4, 1 / 4]]
             = [[1 / 4, 1 / 4], [1 / 4, 1 / 4]]"
    by (simp add: sinkhorn_body_def tensor_defs upt_rec)
  show ?thesis
    by (simp add: distributed_sinkhorn_single sinkhorn_def tensor_defs upt_rec numeral_2_eq_2
        sinkhorn_loop_fixed[OF b])
qed

lemma ex_normalize:
  "normalize_dim1 [[0, 2, 0], [2, 0, 0]] = [[0, 1, 0], [1, 0, 0]]"
  "normalize_dim1 [[0, 1, 0], [1, 0, 0]] = [[0, 1, 0], [1, 0, 0]]"
  by (simp_all add: normalize_dim1_def)

lemma ex_forward:
  "forward ex_batch [[0, 1, 0], [1, 0, 0]] = ([[0, 0, 1], [0, 0, 1]], [[0, 0], [0, 0]])"
  "batch_size ex_batch = Suc 0"
  by (simp_all add: ex_batch_def mm_def mat_t_def ncols_def column_def upt_rec)

lemma ex_module_fields:
  "queue ex_module = None" "get_assignments ex_module = distributed_sinkhorn None"
  "epsilon ex_module = 1 / 20" "temperature ex_module = 1 / 10"
  "sinkhorn_iterations ex_module = 3" "crops_for_assign ex_module = [0]"
  "nmb_crops ex_module = [Suc 0, Suc 0]" "prototypes_weight ex_module = [[0, 2, 0], [2, 0, 0]]"
  "use_the_queue ex_module = None" "lr_schedule ex_module = None"
  "queue_length ex_module = Suc 0" "epoch_queue_starts ex_module = 0" "feat_dim ex_module = 3"
  "num_nodes ex_module = Suc 0" "warmup_epochs ex_module = 1" "max_epochs ex_module = 2"
  "start_lr ex_module = 0" "learning_rate ex_module = 1 / 1000" "final_lr ex_module = 0"
  by (simp_all add: ex_module_def init_def)

lemma ex_subloss:
  "temperature s = 1 / 10 \<Longrightarrow>
     subloss_loop s (Suc 0) [[0, 0], [0, 0]] [[1 / 2, 1 / 2]] [Suc 0] 0 = Inr (ln 2)"
  by (simp add: py_slice_def softmax_def div_scalar_def mean_sum_q_log_p_def mean_def
      sum_dim1_def ln_div)

lemma ex_fill: "fill_queue (Suc 0) [[0, 0, 1], [0, 0, 1]] 0 [r] = Inr [[0, 0, 1]]"
  by (simp add: fill_queue_def bind_def setitem_rows_def slice_to_neg_def py_slice_def)

lemma ex_assign_block:
  assumes "get_assignments s = distributed_sinkhorn None"
    and "queue s = None \<or> (queue s = Some [[r]] \<and> use_the_queue s = Some u \<and>
           mm [r] (mat_t (prototypes_weight s)) = [[0, 0]])"
  shows "assign_block (Suc 0) [[0, 0, 1], [0, 0, 1]] [[0, 0], [0, 0]] s 0 0 =
     Inr (if queue s = None then s
          else s\<lparr>queue := Some [[[0, 0, 1]]],
                 use_the_queue := Some (u \<or> \<not> list_all (\<lambda>x. x = 0) r)\<rparr>,
          [[1 / 2, 1 / 2]])"
proof (cases "queue s")
  case None
  then show ?thesis
    by (simp add: assign_block_def queue_block_None bind_Inr py_slice_def assms(1)
        mat_t_def ncols_def column_def ex_sinkhorn_1 slice_from_neg_def)
next
  case (Some qs)
  with assms(2) have q: "queue s = Some [[r]]" and u: "use_the_queue s = Some u"
    and m: "mm [r] (mat_t (prototypes_weight s)) = [[0, 0]]" by auto
  have iu: "queue_in_use s [[r]] 0 = Inr (u \<or> \<not> list_all (\<lambda>x. x = 0) r)"
    by (simp add: queue_in_use_def u)
  have f: "fill_queue (Suc 0) [[0, 0, 1], [0, 0, 1]] 0 ([[r]] ! 0) = Inr [[0, 0, 1]]"
    by (simp add: ex_fill)
  have qb: "queue_block (Suc 0) [[0, 0, 1], [0, 0, 1]] s 0 0 [[0, 0]] =
     Inr (s\<lparr>queue := Some [[[0, 0, 1]]],
            use_the_queue := Some (u \<or> \<not> list_all (\<lambda>x. x = 0) r)\<rparr>,
          if u \<or> \<not> list_all (\<lambda>x. x = 0) r then [[0, 0], [0, 0]] else [[0, 0]])"
    using queue_block_SomeI[OF q _ iu f, of "[[0, 0]]"] u m by auto
  show ?thesis
    by (simp add: assign_block_def py_slice_def qb bind_Inr assms(1) q
        mat_t_def ncols_def column_def ex_sinkhorn_1 ex_sinkhorn_2 slice_from_neg_def
        length_sinkhorn)
qed

lemma ex_crops_loop:
  assumes a: "assign_block (Suc 0) [[0, 0, 1], [0, 0, 1]] [[0, 0], [0, 0]] s 0 0
                = Inr (s', [[1 / 2, 1 / 2]])"
    and t: "temperature s' = 1 / 10" and n: "nmb_crops s' = [Suc 0, Suc 0]"
  shows "crops_loop (Suc 0) [[0, 0, 1], [0, 0, 1]] [[0, 0], [0, 0]] [(0, 0)] s 0 = Inr (s', ln 2)"
proof -
  have d: "np_delete_arange (sum_list (nmb_crops s')) 0 = Inr [Suc 0]"
    by (simp add: n np_delete_arange_def)
  have sl: "subloss_loop s' (Suc 0) [[0, 0], [0, 0]] [[1 / 2, 1 / 2]] [Suc 0] 0 = Inr (ln 2)"
    by (rule ex_subloss[OF t])
  show ?thesis
    unfolding crops_loop.simps a bind_Inr prod.case d sl by (simp add: n)
qed

lemma ex_shared_step:
  assumes cl: "crops_loop (Suc 0) [[0, 0, 1], [0, 0, 1]] [[0, 0], [0, 0]] [(0, 0)]
                 (s\<lparr>prototypes_weight := [[0, 1, 0], [1, 0, 0]]\<rparr>) 0 = Inr (s', l)"
    and c: "crops_for_assign s = [0]"
    and w: "normalize_dim1 (prototypes_weight s) = [[0, 1, 0], [1, 0, 0]]"
  shows "shared_step ex_batch s = Inr (s', l)"
proof -
  have c': "crops_for_assign s' = [0]"
    by (subst crops_loop_frame[OF cl]) (simp add: c)
  have e: "enumerate 0 (crops_for_assign (s\<lparr>prototypes_weight := [[0, 1, 0], [1, 0, 0]]\<rparr>))
             = [(0, 0)]"
    by (simp add: c enumerate_eq_zip)
  show ?thesis
    unfolding shared_step_def Let_def w ex_forward prod.case e cl bind_Inr
    by (simp add: c')
qed

lemma ex_mm: "mm [[0, 0, x]] (mat_t [[0, 1, 0], [1, 0, 0]]) = [[0, 0]]"
  by (simp add: mm_def mat_t_def ncols_def column_def upt_rec)


lemma ex_shared_step_queue:
  assumes "get_assignments s = distributed_sinkhorn None"
    and "queue s = Some [[[0, 0, x]]]" and "use_the_queue s = Some u"
    and "temperature s = 1 / 10" and "nmb_crops s = [Suc 0, Suc 0]"
    and "crops_for_assign s = [0]"
    and "normalize_dim1 (prototypes_weight s) = [[0, 1, 0], [1, 0, 0]]"
  shows "shared_step ex_batch s =
     Inr (s\<lparr>prototypes_weight := [[0, 1, 0], [1, 0, 0]], queue := Some [[[0, 0, 1]]],
            use_the_queue := Some (u \<or> x \<noteq> 0)\<rparr>, ln 2)"
proof -
  let ?s1 = "s\<lparr>prototypes_weight := [[0, 1, 0], [1, 0, 0]]\<rparr>"
  let ?s2 = "s\<lparr>prototypes_weight := [[0, 1, 0], [1, 0, 0]], queue := Some [[[0, 0, 1]]],
            use_the_queue := Some (u \<or> x \<noteq> 0)\<rparr>"
  have "assign_block (Suc 0) [[0, 0, 1], [0, 0, 1]] [[0, 0], [0, 0]] ?s1 0 0
          = Inr (?s2, [[1 / 2, 1 / 2]])"
    using ex_assign_block[of ?s1 "[0, 0, x]" u] assms(1,2,3) by (simp add: ex_mm)
  then have "crops_loop (Suc 0) [[0, 0, 1], [0, 0, 1]] [[0, 0], [0, 0]] [(0, 0)] ?s1 0
          = Inr (?s2, ln 2)"
    by (rule ex_crops_loop) (simp_all add: assms)
  then show ?thesis by (rule ex_shared_step) (rule assms)+
qed


theorem assign_block_last_rows_witness:
  "queue (ex_module\<lparr>queue := Some [[[0, 0, 5]]], use_the_queue := Some False\<rparr>)
     = Some [[[0, 0, 5]]] \<and>
   \<not> list_all (\<lambda>x. x = 0) (last ([[[0, 0, 5 :: real]]] ! 0)) \<and>
   fill_queue 1 [[0, 0, 1], [0, 0, 1]] 0 ([[[0, 0, 5]]] ! 0) = Inr [[0, 0, 1]] \<and>
   distributed_sinkhorn None
     (mat_t (map (map (\<lambda>x. exp (x / (1 / 20))))
        (mm [[0, 0, 5]] (mat_t [[0, 2, 0], [2, 0, 0]]) @ [[0, 0]]))) 3
     = [[1 / 2, 1 / 2], [1 / 2, 1 / 2]] \<and>
   assign_block 1 [[0, 0, 1], [0, 0, 1]] [[0, 0], [0, 0]]
     (ex_module\<lparr>queue := Some [[[0, 0, 5]]], use_the_queue := Some False\<rparr>) 0 0
     = Inr (ex_module\<lparr>queue := Some [[[0, 0, 1]]], use_the_queue := Some True\<rparr>,
            [[1 / 2, 1 / 2]])"
proof -
  let ?s = "ex_module\<lparr>queue := Some [[[0, 0, 5]]], use_the_queue := Some False\<rparr>"
  let ?qs = "[[[0, 0, 5 :: real]]]"
  have q: "queue ?s = Some ?qs" by simp
  have i: "0 < length ?qs" by simp
  have Lq: "?qs ! 0 \<noteq> []" by simp
  have nz: "\<not> list_all (\<lambda>x. x = 0) (last (?qs ! 0))" by simp
  have use: "use_the_queue ?s = Some True \<or>
      (use_the_queue ?s = Some False \<and> \<not> list_all (\<lambda>x. x = 0) (last (?qs ! 0)))"
    by simp
  have ga: "get_assignments ?s = distributed_sinkhorn None" by (simp add: ex_module_fields)
  have W: "prototypes_weight ?s \<noteq> []" "0 < ncols (prototypes_weight ?s)"
    by (simp_all add: ex_module_fields ncols_def)
  have bs: "0 < (1::nat)" "length (py_slice (1 * 0) (1 * (0 + 1)) [[0, 0], [0, 0 :: real]]) = 1"
    by (simp_all add: py_slice_def)
  have fill: "fill_queue 1 [[0, 0, 1], [0, 0, 1]] 0 (?qs ! 0) = Inr [[0, 0, 1]]"
    by (simp add: ex_fill)
  have sk: "distributed_sinkhorn None
     (mat_t (map (map (\<lambda>x. exp (x / (1 / 20))))
        (mm [[0, 0, 5]] (mat_t [[0, 2, 0], [2, 0, 0]]) @ [[0, 0]]))) 3
     = [[1 / 2, 1 / 2], [1 / 2, 1 / 2]]"
    by (simp add: mm_def mat_t_def ncols_def column_def upt_rec ex_sinkhorn_2)
  from assign_block_last_rows[OF q i Lq use ga W bs fill] sk
  have "assign_block 1 [[0, 0, 1], [0, 0, 1]] [[0, 0], [0, 0]] ?s 0 0
     = Inr (ex_module\<lparr>queue := Some [[[0, 0, 1]]], use_the_queue := Some True\<rparr>,
            [[1 / 2, 1 / 2]])"
    by (simp add: ex_module_fields py_slice_def)
  with q nz fill sk show ?thesis by blast
qed



theorem validation_step_effects_witness:
  "validation_step ex_batch (ex_module\<lparr>queue := Some [[[0, 0, 5]]], use_the_queue := Some False\<rparr>)
     = Inr (ex_module\<lparr>prototypes_weight := [[0, 1, 0], [1, 0, 0]], queue := Some [[[0, 0, 1]]],
              use_the_queue := Some True\<rparr>, ln 2) \<and>
   shared_step ex_batch (ex_module\<lparr>queue := Some [[[0, 0, 5]]], use_the_queue := Some False\<rparr>)
     = Inr (ex_module\<lparr>prototypes_weight := [[0, 1, 0], [1, 0, 0]], queue := Some [[[0, 0, 1]]],
              use_the_queue := Some True\<rparr>, ln 2) \<and>
   prototypes_weight (ex_module\<lparr>prototypes_weight := [[0, 1, 0], [1, 0, 0]],
       queue := Some [[[0, 0, 1]]], use_the_queue := Some True\<rparr>)
     = normalize_dim1 (prototypes_weight
         (ex_module\<lparr>queue := Some [[[0, 0, 5]]], use_the_queue := Some False\<rparr>)) \<and>
   prototypes_weight ex_module = [[0, 2, 0], [2, 0, 0]] \<and>
   normalize_dim1 (prototypes_weight ex_module) = [[0, 1, 0], [1, 0, 0]] \<and>
   \<not> list_all (\<lambda>x. x = 0) (last ([[[0, 0, 5 :: real]]] ! 0)) \<and>
   fill_queue (batch_size ex_batch) [[0, 0, 1], [0, 0, 1]] 0 [[0, 0, 5]] = Inr [[0, 0, 1]]"
proof -
  let ?s = "ex_module\<lparr>queue := Some [[[0, 0, 5]]], use_the_queue := Some False\<rparr>"
  let ?s' = "ex_module\<lparr>prototypes_weight := [[0, 1, 0], [1, 0, 0]], queue := Some [[[0, 0, 1]]],
              use_the_queue := Some True\<rparr>"
  have "shared_step ex_batch ?s = Inr (?s', ln 2)"
    using ex_shared_step_queue[of ?s 5 False] by (simp add: ex_module_fields ex_normalize)
  then have h: "validation_step ex_batch ?s = Inr (?s', ln 2)"
    by (simp add: validation_step_def)
  have f: "fill_queue (batch_size ex_batch) [[0, 0, 1], [0, 0, 1]] 0 [[0, 0, 5]] = Inr [[0, 0, 1]]"
    by (simp add: ex_forward ex_fill)
  note th = validation_step_effects[OF h]
  from th have ss: "shared_step ex_batch ?s = Inr (?s', ln 2)" by (rule conjunct1)
  from th have w: "prototypes_weight ?s' = normalize_dim1 (prototypes_weight ?s)"
    by (rule conjunct1[OF conjunct2])
  have nz: "\<not> list_all (\<lambda>x. x = 0) (last ([[[0, 0, 5 :: real]]] ! 0))" by simp
  have pw: "prototypes_weight ex_module = [[0, 2, 0], [2, 0, 0]]"
    by (rule ex_module_fields)
  have nw: "normalize_dim1 (prototypes_weight ex_module) = [[0, 1, 0], [1, 0, 0]]"
    by (simp add: pw ex_normalize)
  show ?thesis
    by (intro conjI) (rule h ss w pw nw nz f)+
qed

end
